theory Spec2Isabelle
  imports Main "HOL-Library.Sublist"
begin

section \<open>Python values used by capture_YT_comments.py\<close>

text \<open>
  Exceptions are values. Each constructor carries \<open>str(e)\<close>, the text that the retry
  loop interpolates into its log line.
\<close>

datatype py_exception =
    IndexError string
  | TypeError string
  | ValueError string
  | OtherException string

fun exc_str :: "py_exception \<Rightarrow> string" where
  "exc_str (IndexError m) = m"
| "exc_str (TypeError m) = m"
| "exc_str (ValueError m) = m"
| "exc_str (OtherException m) = m"

text \<open>\<open>needle in hay\<close> on two Python strings: a contiguous occurrence.\<close>

fun str_in :: "string \<Rightarrow> string \<Rightarrow> bool" where
  "str_in needle [] = (needle = [])"
| "str_in needle (c # cs) = (prefix needle (c # cs) \<or> str_in needle cs)"

text \<open>\<open>str(n)\<close> for an integer, as an f-string formats it.\<close>

function str_nat :: "nat \<Rightarrow> string" where
  "str_nat n =
     (if n < 10 then [char_of (48 + n)]
      else str_nat (n div 10) @ [char_of (48 + n mod 10)])"
  by pat_completeness auto
termination
  by (relation "measure (\<lambda>n. n)") auto

definition str_int :: "int \<Rightarrow> string" where
  "str_int i = (if i < 0 then CHR ''-'' # str_nat (nat (- i)) else str_nat (nat i))"

text \<open>\<open>range(n)\<close> and \<open>range(0, n, step)\<close>. A zero step raises; a negative one gives
  the empty range, as does a negative bound.\<close>

definition py_range :: "int \<Rightarrow> nat list" where
  "py_range n = [0 ..< nat n]"

function range_from :: "nat \<Rightarrow> nat \<Rightarrow> nat \<Rightarrow> nat list" where
  "range_from i n step =
     (if step = 0 \<or> n \<le> i then [] else i # range_from (i + step) n step)"
  by pat_completeness auto
termination
  by (relation "measure (\<lambda>(i, n, step). n - i)") auto

definition py_range_step :: "nat \<Rightarrow> int \<Rightarrow> py_exception + nat list" where
  "py_range_step n step =
     (if step = 0 then Inl (ValueError ''range() arg 3 must not be zero'')
      else if step < 0 then Inr []
      else Inr (range_from 0 n (nat step)))"

section \<open>html.unescape\<close>

text \<open>
  The standard library's \<open>html.unescape\<close> replaces every match of
  \<^verbatim>\<open>&(#[0-9]+;?|#[xX][0-9a-fA-F]+;?|[^\t\n\f <&#;]{1,32};?)\<close>
  by what \<open>_replace_charref\<close> returns for the matched group. Its two tables are
  parameters: \<open>html5\<close> is the named-entity table \<open>html.entities.html5\<close>, and
  \<open>codepoint\<close> gives the string a numeric reference denotes (the invalid-reference
  tables and \<open>chr\<close>). Text is a list of \<open>char\<close>, one for each character.
\<close>

record html_tables =
  html5 :: "(string \<times> string) list"
  codepoint :: "nat \<Rightarrow> string"

definition is_digit :: "char \<Rightarrow> bool" where
  "is_digit c = (c \<in> set ''0123456789'')"

definition is_hexdigit :: "char \<Rightarrow> bool" where
  "is_hexdigit c = (c \<in> set ''0123456789abcdefABCDEF'')"

definition is_name_char :: "char \<Rightarrow> bool" where
  "is_name_char c = (c \<notin> {CHR 0x09, CHR 0x0A, CHR 0x0C, CHR '' '', CHR ''<'', CHR ''&'', CHR ''#'', CHR '';''})"

definition hex_value :: "char \<Rightarrow> nat" where
  "hex_value c =
     (if is_digit c then of_char c - 48
      else if c \<in> set ''abcdef'' then of_char c - 87
      else of_char c - 55)"

definition int_of_str :: "nat \<Rightarrow> string \<Rightarrow> nat" where
  "int_of_str base s = foldl (\<lambda>n c. base * n + hex_value c) 0 s"

definition rstrip_semi :: "string \<Rightarrow> string" where
  "rstrip_semi s = rev (dropWhile (\<lambda>c. c = CHR '';'') (rev s))"

text \<open>The optional \<open>;\<close> that ends each alternative: the part consumed and the rest.\<close>

fun opt_semi :: "string \<Rightarrow> string \<times> string" where
  "opt_semi (c # cs) = (if c = CHR '';'' then ([c], cs) else ([], c # cs))"
| "opt_semi [] = ([], [])"

text \<open>One match attempt right after an ampersand: the group and the unread rest.\<close>

definition match_charref :: "string \<Rightarrow> (string \<times> string) option" where
  "match_charref cs =
     (case cs of
        [] \<Rightarrow> None
      | c # ds \<Rightarrow>
          if c = CHR ''#'' then
            (let digs = takeWhile is_digit ds in
             if digs \<noteq> [] then
               (let (semi, rest) = opt_semi (dropWhile is_digit ds)
                in Some (c # digs @ semi, rest))
             else
               (case ds of
                  [] \<Rightarrow> None
                | x # hs \<Rightarrow>
                    if x = CHR ''x'' \<or> x = CHR ''X'' then
                      (let hx = takeWhile is_hexdigit hs in
                       if hx \<noteq> [] then
                         (let (semi, rest) = opt_semi (dropWhile is_hexdigit hs)
                          in Some (c # x # hx @ semi, rest))
                       else None)
                    else None))
          else
            (let name = takeWhile is_name_char (take 32 cs) in
             if name \<noteq> [] then
               (let (semi, rest) = opt_semi (drop (length name) cs)
                in Some (name @ semi, rest))
             else None))"

text \<open>The loop \<open>for x in range(len(s)-1, 1, -1)\<close> of the named branch, with its
  \<open>else\<close> clause.\<close>

fun longest_name :: "(string \<times> string) list \<Rightarrow> string \<Rightarrow> nat \<Rightarrow> string" where
  "longest_name tbl s 0 = CHR ''&'' # s"
| "longest_name tbl s (Suc x) =
     (if Suc x \<le> 1 then CHR ''&'' # s
      else (case map_of tbl (take (Suc x) s) of
              Some r \<Rightarrow> r @ drop (Suc x) s
            | None \<Rightarrow> longest_name tbl s x))"

definition replace_charref :: "html_tables \<Rightarrow> string \<Rightarrow> string" where
  "replace_charref T s =
     (if hd s = CHR ''#'' then
        (if hd (tl s) = CHR ''x'' \<or> hd (tl s) = CHR ''X''
         then codepoint T (int_of_str 16 (rstrip_semi (drop 2 s)))
         else codepoint T (int_of_str 10 (rstrip_semi (drop 1 s))))
      else
        (case map_of (html5 T) s of
           Some r \<Rightarrow> r
         | None \<Rightarrow> longest_name (html5 T) s (length s - 1)))"

lemma opt_semi_length: "opt_semi cs = (semi, rest) \<Longrightarrow> length rest \<le> length cs"
  by (cases cs) (auto split: if_splits)

lemma match_charref_length:
  assumes "match_charref cs = Some (g, rest)"
  shows "length rest \<le> length cs"
proof (cases cs)
  case Nil
  with assms show ?thesis by (simp add: match_charref_def)
next
  case (Cons c ds)
  have dw: "length (dropWhile P xs) \<le> length xs" for P and xs :: string
    by (rule length_dropWhile_le)
  show ?thesis
  proof (cases "c = CHR ''#''")
    case hash: True
    show ?thesis
    proof (cases "takeWhile is_digit ds = []")
      case False
      obtain semi r where o: "opt_semi (dropWhile is_digit ds) = (semi, r)"
        by (cases "opt_semi (dropWhile is_digit ds)")
      with assms Cons hash False have "rest = r"
        by (simp add: match_charref_def Let_def)
      with opt_semi_length [OF o] dw [of is_digit ds] Cons show ?thesis by simp
    next
      case nodig: True
      show ?thesis
      proof (cases ds)
        case Nil
        with assms Cons hash nodig show ?thesis by (simp add: match_charref_def)
      next
        case (Cons x hs)
        obtain semi r where o: "opt_semi (dropWhile is_hexdigit hs) = (semi, r)"
          by (cases "opt_semi (dropWhile is_hexdigit hs)")
        from assms \<open>cs = c # ds\<close> hash nodig Cons o have "rest = r"
          by (simp add: match_charref_def Let_def split: if_splits)
        with opt_semi_length [OF o] dw [of is_hexdigit hs] Cons \<open>cs = c # ds\<close>
        show ?thesis by simp
      qed
    qed
  next
    case False
    define name where "name = takeWhile is_name_char (take 32 cs)"
    obtain semi r where o: "opt_semi (drop (length name) cs) = (semi, r)"
      by (cases "opt_semi (drop (length name) cs)")
    from assms Cons False o have "rest = r"
      by (simp add: match_charref_def Let_def name_def split: if_splits)
    with opt_semi_length [OF o] show ?thesis by simp
  qed
qed

text \<open>\<open>_charref.sub(_replace_charref, s)\<close>: leftmost matches, left to right; a
  character that starts no match is copied.\<close>

function sub_charref :: "html_tables \<Rightarrow> string \<Rightarrow> string" where
  "sub_charref T [] = []"
| "sub_charref T (c # cs) =
     (if c = CHR ''&'' then
        (case match_charref cs of
           Some (g, rest) \<Rightarrow> replace_charref T g @ sub_charref T rest
         | None \<Rightarrow> c # sub_charref T cs)
      else c # sub_charref T cs)"
  by pat_completeness auto
termination
  by (relation "measure (\<lambda>(T, s). length s)")
     (auto dest: match_charref_length)

definition html_unescape :: "html_tables \<Rightarrow> string \<Rightarrow> string" where
  "html_unescape T s = (if CHR ''&'' \<notin> set s then s else sub_charref T s)"

section \<open>Data model\<close>

subsection \<open>What the API returns\<close>

text \<open>
  Responses are read at the schema of the API: a key the source indexes with
  \<open>[...]\<close> is a field, a key it reads with \<open>.get\<close> is an option (\<open>None\<close>: the key
  is absent). The \<open>errors\<close> array may be empty; the source indexes it with \<open>[0]\<close>.
\<close>

record error_item =
  reason :: "string option"

record error_obj =
  errors :: "error_item list option"
  message :: "string option"

record channel_ref =
  value_field :: "string option"

record comment_snippet =
  likeCount :: "int option"
  publishedAt :: string
  authorDisplayName :: string
  textDisplay :: string
  authorChannelId :: "channel_ref option"
  authorChannelUrl :: "string option"

record top_level_comment =
  tlc_snippet :: comment_snippet

record thread_snippet =
  totalReplyCount :: "int option"
  topLevelComment :: top_level_comment

record thread_item =
  thread_id :: string
  thread_snippet :: thread_snippet

record reply_item =
  reply_id :: string
  reply_snippet :: comment_snippet

record json_body =
  error :: "error_obj option"
  items :: "thread_item list option"

record http_response =
  status :: int
  json :: json_body

record replies_response =
  reply_items :: "reply_item list option"

subsection \<open>Comment: the dict built for each record, and its row\<close>

record comment =
  id_c :: string
  video_id :: string
  reply_count :: int
  like_count :: int
  published_at :: string
  author_name :: string
  text_c :: string
  author_channel_id :: "string option"
  author_channel_url :: "string option"
  is_reply :: bool
  is_reply_to :: "string option"
  is_reply_to_name :: "string option"

type_synonym row =
  "string \<times> string \<times> int \<times> int \<times> string \<times> string \<times> string \<times>
   string option \<times> string option \<times> bool \<times> string option \<times> string option"

definition row_of :: "comment \<Rightarrow> row" where
  "row_of c =
     (id_c c, video_id c, reply_count c, like_count c, published_at c,
      author_name c, text_c c, author_channel_id c, author_channel_url c,
      is_reply c, is_reply_to c, is_reply_to_name c)"

definition row_id :: "row \<Rightarrow> string" where
  "row_id r = fst r"

text \<open>The invariant of the data model: the parent link is null exactly when the
  comment is not a reply.\<close>

definition link_invariant :: "comment \<Rightarrow> bool" where
  "link_invariant c = ((is_reply_to c = None) = (\<not> is_reply c))"

subsection \<open>Configuration and the world the program acts on\<close>

record config =
  retries :: int
  delay :: int
  batch_size :: int

datatype level = INFO | ERROR

text \<open>
  Every effect is an event of one trace, in program order: a GET for a video, a log
  line with its level, a sleep, an invocation of the operation the retry loop wraps,
  an \<open>executemany\<close> with its rows, a commit, a rollback.
\<close>

datatype event =
    HttpGet string
  | Log level string
  | Sleep int
  | Call string
  | Executemany "row list"
  | Commit
  | Rollback

text \<open>
  The connection: \<open>committed\<close> is the table as any other reader of the database file
  sees it, \<open>working\<close> the table as this connection sees it, with the rows of its open
  transaction. The connection is opened with the default isolation level, so an
  INSERT opens a transaction that lasts until \<open>commit\<close> or \<open>rollback\<close>.
\<close>

record world =
  trace :: "event list"
  committed :: "row list"
  working :: "row list"

definition emit :: "event \<Rightarrow> world \<Rightarrow> world" where
  "emit e w = w\<lparr>trace := trace w @ [e]\<rparr>"

definition logging :: "level \<Rightarrow> string \<Rightarrow> world \<Rightarrow> world" where
  "logging l m w = emit (Log l m) w"

definition time_sleep :: "int \<Rightarrow> world \<Rightarrow> py_exception + world" where
  "time_sleep secs w =
     (if secs < 0 then Inl (ValueError ''sleep length must be non-negative'')
      else Inr (emit (Sleep secs) w))"

text \<open>Projections of the trace.\<close>

fun log_lines :: "event list \<Rightarrow> (level \<times> string) list" where
  "log_lines [] = []"
| "log_lines (Log l m # es) = (l, m) # log_lines es"
| "log_lines (e # es) = log_lines es"

fun sleeps :: "event list \<Rightarrow> int list" where
  "sleeps [] = []"
| "sleeps (Sleep d # es) = d # sleeps es"
| "sleeps (e # es) = sleeps es"

fun requests :: "event list \<Rightarrow> string list" where
  "requests [] = []"
| "requests (HttpGet v # es) = v # requests es"
| "requests (e # es) = requests es"

fun calls :: "event list \<Rightarrow> string list" where
  "calls [] = []"
| "calls (Call v # es) = v # calls es"
| "calls (e # es) = calls es"

fun is_db_event :: "event \<Rightarrow> bool" where
  "is_db_event (Executemany rs) = True"
| "is_db_event Commit = True"
| "is_db_event Rollback = True"
| "is_db_event e = False"

text \<open>The events of a trace that are attempts or sleeps.\<close>

fun attempt_or_sleep :: "event \<Rightarrow> bool" where
  "attempt_or_sleep (Call v) = True"
| "attempt_or_sleep (Sleep d) = True"
| "attempt_or_sleep e = False"

section \<open>The store\<close>

text \<open>
  Modelled from the spec: the schema of table \<open>comments\<close>, which is created outside
  the source file. Its primary key is \<open>id\<close> and it has no other constraint, so
  \<open>INSERT OR IGNORE\<close> skips a row exactly when a row with its \<open>id\<close> is in the table.
\<close>

definition insert_or_ignore :: "row list \<Rightarrow> row \<Rightarrow> row list" where
  "insert_or_ignore tbl r =
     (if row_id r \<in> set (map row_id tbl) then tbl else tbl @ [r])"

definition executemany :: "row list \<Rightarrow> world \<Rightarrow> world" where
  "executemany rs w =
     emit (Executemany rs) (w\<lparr>working := foldl insert_or_ignore (working w) rs\<rparr>)"

definition conn_commit :: "world \<Rightarrow> world" where
  "conn_commit w = emit Commit (w\<lparr>committed := working w\<rparr>)"

definition conn_rollback :: "world \<Rightarrow> world" where
  "conn_rollback w = emit Rollback (w\<lparr>working := committed w\<rparr>)"

definition insert_comments_batch :: "comment list \<Rightarrow> world \<Rightarrow> world" where
  "insert_comments_batch comments w = executemany (map row_of comments) w"

section \<open>Fetching\<close>

subsection \<open>The normalizer: the dict literal of each loop body\<close>

definition channel_value :: "comment_snippet \<Rightarrow> string option" where
  "channel_value sn =
     (case authorChannelId sn of None \<Rightarrow> None | Some ch \<Rightarrow> value_field ch)"

definition thread_comment :: "html_tables \<Rightarrow> string \<Rightarrow> thread_item \<Rightarrow> comment" where
  "thread_comment T vid item =
     (let snippet = tlc_snippet (topLevelComment (thread_snippet item)) in
      \<lparr>id_c = thread_id item,
       video_id = vid,
       reply_count = (case totalReplyCount (thread_snippet item) of None \<Rightarrow> 0 | Some n \<Rightarrow> n),
       like_count = (case likeCount snippet of None \<Rightarrow> 0 | Some n \<Rightarrow> n),
       published_at = publishedAt snippet,
       author_name = authorDisplayName snippet,
       text_c = html_unescape T (textDisplay snippet),
       author_channel_id = channel_value snippet,
       author_channel_url = authorChannelUrl snippet,
       is_reply = False,
       is_reply_to = None,
       is_reply_to_name = None\<rparr>)"

definition reply_comment :: "html_tables \<Rightarrow> string \<Rightarrow> string \<Rightarrow> reply_item \<Rightarrow> comment" where
  "reply_comment T parent_id vid item =
     (let snippet = reply_snippet item in
      \<lparr>id_c = reply_id item,
       video_id = vid,
       reply_count = 0,
       like_count = (case likeCount snippet of None \<Rightarrow> 0 | Some n \<Rightarrow> n),
       published_at = publishedAt snippet,
       author_name = authorDisplayName snippet,
       text_c = html_unescape T (textDisplay snippet),
       author_channel_id = channel_value snippet,
       author_channel_url = authorChannelUrl snippet,
       is_reply = True,
       is_reply_to = Some parent_id,
       is_reply_to_name = None\<rparr>)"

subsection \<open>fetch_comments\<close>

text \<open>Lines 62 and 63: the reason of the first error, and the message, with the
  defaults of each \<open>.get\<close>. \<open>[0]\<close> on an empty \<open>errors\<close> array raises.\<close>

definition error_reason :: "json_body \<Rightarrow> py_exception + string" where
  "error_reason b =
     (case error b of
        None \<Rightarrow> Inr []
      | Some eo \<Rightarrow>
          (case errors eo of
             None \<Rightarrow> Inr []
           | Some [] \<Rightarrow> Inl (IndexError ''list index out of range'')
           | Some (e # es) \<Rightarrow> Inr (case reason e of None \<Rightarrow> [] | Some r \<Rightarrow> r)))"

definition error_message :: "json_body \<Rightarrow> string" where
  "error_message b =
     (case error b of
        None \<Rightarrow> []
      | Some eo \<Rightarrow> (case message eo of None \<Rightarrow> [] | Some m \<Rightarrow> m))"

text \<open>The session answers a GET for a video with a response, whose body parses as
  JSON. A failure of the transport, which \<open>session.get\<close> would raise, is not among the
  answers.\<close>

definition fetch_comments ::
  "html_tables \<Rightarrow> (string \<Rightarrow> http_response) \<Rightarrow> string \<Rightarrow> world
     \<Rightarrow> (py_exception + comment list) \<times> world" where
  "fetch_comments T session vid w =
     (let response = session vid; w1 = emit (HttpGet vid) w in
      if status response = 403 then
        (case error_reason (json response) of
           Inl e \<Rightarrow> (Inl e, w1)
         | Inr rsn \<Rightarrow>
             (let msg = error_message (json response) in
              if str_in ''commentsDisabled'' rsn \<or> str_in ''disabled comments'' msg
              then (Inr [],
                    logging INFO (''Comments are disabled for video '' @ vid @ ''.'') w1)
              else (Inr [],
                    logging ERROR (''403 Forbidden for video '' @ vid @ ''. Reason: '' @ rsn
                                   @ '', Message: '' @ msg) w1)))
      else if status response \<noteq> 200 then
        (Inr [],
         logging ERROR (''Failed to fetch comments for video '' @ vid @ '': HTTP ''
                        @ str_int (status response)) w1)
      else
        (Inr (map (thread_comment T vid)
                (case items (json response) of None \<Rightarrow> [] | Some xs \<Rightarrow> xs)),
         w1))"

subsection \<open>process_video_batch\<close>

text \<open>
  \<open>asyncio.gather\<close> returns the tasks' results in the order of the tasks, whatever
  the order in which they complete, and raises when a task raises. The trace records
  the tasks' events in the order of the identifiers; in the program the log lines of
  different identifiers come in completion order.
\<close>

fun gather ::
  "html_tables \<Rightarrow> (string \<Rightarrow> http_response) \<Rightarrow> string list \<Rightarrow> world
     \<Rightarrow> (py_exception + comment list list) \<times> world" where
  "gather T session [] w = (Inr [], w)"
| "gather T session (vid # vids) w =
     (case fetch_comments T session vid w of
        (Inl e, w1) \<Rightarrow> (Inl e, w1)
      | (Inr result, w1) \<Rightarrow>
          (case gather T session vids w1 of
             (Inl e, w2) \<Rightarrow> (Inl e, w2)
           | (Inr results, w2) \<Rightarrow> (Inr (result # results), w2)))"

definition process_video_batch ::
  "html_tables \<Rightarrow> (string \<Rightarrow> http_response) \<Rightarrow> string list \<Rightarrow> world
     \<Rightarrow> (py_exception + comment list) \<times> world" where
  "process_video_batch T session video_ids w =
     (case gather T session video_ids w of
        (Inl e, w1) \<Rightarrow> (Inl e, w1)
      | (Inr results, w1) \<Rightarrow>
          (Inr (concat (map (\<lambda>result. filter (\<lambda>comment. result \<noteq> []) result) results)),
           w1))"

subsection \<open>fetch_replies\<close>

text \<open>\<open>request.execute()\<close> either raises or returns the parsed response.\<close>

definition fetch_replies ::
  "html_tables \<Rightarrow> (string \<Rightarrow> py_exception + replies_response) \<Rightarrow> string \<Rightarrow> string
     \<Rightarrow> py_exception + comment list" where
  "fetch_replies T execute parent_id vid =
     (case execute parent_id of
        Inl e \<Rightarrow> Inl e
      | Inr response \<Rightarrow>
          Inr (map (reply_comment T parent_id vid)
                 (case reply_items response of None \<Rightarrow> [] | Some xs \<Rightarrow> xs)))"

subsection \<open>fetch_comments_with_retry\<close>

text \<open>
  The loop of \<open>fetch_comments_with_retry\<close>, with the call it wraps as the parameter
  \<open>operation\<close>: the outcome of the attempt with a given index.
\<close>

fun retry_loop ::
  "config \<Rightarrow> (nat \<Rightarrow> py_exception + comment list) \<Rightarrow> string \<Rightarrow> nat list \<Rightarrow> world
     \<Rightarrow> (py_exception + comment list) \<times> world" where
  "retry_loop cfg operation vid [] w =
     (Inr [],
      logging ERROR (''All '' @ str_int (retries cfg) @ '' attempts failed for video '' @ vid) w)"
| "retry_loop cfg operation vid (attempt # rest) w =
     (let w1 = emit (Call vid) w in
      case operation attempt of
        Inr result \<Rightarrow> (Inr result, w1)
      | Inl e \<Rightarrow>
          (let w2 = logging ERROR (''Attempt '' @ str_int (int attempt + 1)
                      @ '' failed for video '' @ vid @ '': '' @ exc_str e) w1
           in case time_sleep (delay cfg) w2 of
                Inl e2 \<Rightarrow> (Inl e2, w2)
              | Inr w3 \<Rightarrow> retry_loop cfg operation vid rest w3))"

definition with_retry ::
  "config \<Rightarrow> (nat \<Rightarrow> py_exception + comment list) \<Rightarrow> string \<Rightarrow> world
     \<Rightarrow> (py_exception + comment list) \<times> world" where
  "with_retry cfg operation vid w = retry_loop cfg operation vid (py_range (retries cfg)) w"

text \<open>
  The call as the source writes it, \<open>fetch_comments(video_id)\<close>, gives one argument
  to a function of two required parameters: it raises \<open>TypeError\<close> at each attempt.
\<close>

definition fetch_comments_one_arg :: "string \<Rightarrow> py_exception + comment list" where
  "fetch_comments_one_arg vid =
     Inl (TypeError (''fetch_comments() missing 1 required positional argument: ''
                     @ [CHR 0x27] @ ''video_id'' @ [CHR 0x27]))"

definition fetch_comments_with_retry ::
  "config \<Rightarrow> string \<Rightarrow> world \<Rightarrow> (py_exception + comment list) \<times> world" where
  "fetch_comments_with_retry cfg vid w =
     with_retry cfg (\<lambda>attempt. fetch_comments_one_arg vid) vid w"

section \<open>main\<close>

text \<open>The slices \<open>video_ids[i:i + BATCH_SIZE]\<close> for \<open>i\<close> in
  \<open>range(0, len(video_ids), BATCH_SIZE)\<close>.\<close>

definition batch_at :: "config \<Rightarrow> string list \<Rightarrow> nat \<Rightarrow> string list" where
  "batch_at cfg video_ids i = take (nat (batch_size cfg)) (drop i video_ids)"

definition batches :: "config \<Rightarrow> string list \<Rightarrow> py_exception + string list list" where
  "batches cfg video_ids =
     (case py_range_step (length video_ids) (batch_size cfg) of
        Inl e \<Rightarrow> Inl e
      | Inr starts \<Rightarrow> Inr (map (batch_at cfg video_ids) starts))"

text \<open>One iteration of the loop of \<open>main\<close>.\<close>

definition main_step ::
  "config \<Rightarrow> html_tables \<Rightarrow> (string \<Rightarrow> http_response) \<Rightarrow> string list \<Rightarrow> nat \<Rightarrow> world
     \<Rightarrow> py_exception option \<times> world" where
  "main_step cfg T session video_ids i w =
     (let batch = batch_at cfg video_ids i in
      case process_video_batch T session batch w of
        (Inl e, w1) \<Rightarrow> (Some e, w1)
      | (Inr comments, w1) \<Rightarrow>
          if comments \<noteq> [] then
            (let w2 = insert_comments_batch comments w1;
                 w3 = conn_commit w2
             in (None,
                 logging INFO (''Inserted '' @ str_int (int (length comments))
                   @ '' comments for batch '' @ str_int (int i div batch_size cfg + 1)) w3))
          else (None, w1))"

fun main_loop ::
  "config \<Rightarrow> html_tables \<Rightarrow> (string \<Rightarrow> http_response) \<Rightarrow> string list \<Rightarrow> nat list \<Rightarrow> world
     \<Rightarrow> py_exception option \<times> world" where
  "main_loop cfg T session video_ids [] w = (None, w)"
| "main_loop cfg T session video_ids (i # rest) w =
     (case main_step cfg T session video_ids i w of
        (Some e, w1) \<Rightarrow> (Some e, w1)
      | (None, w1) \<Rightarrow> main_loop cfg T session video_ids rest w1)"

text \<open>The \<open>with\<close> block commits when its body ends and rolls back when it raises.\<close>

definition main ::
  "config \<Rightarrow> html_tables \<Rightarrow> (string \<Rightarrow> http_response) \<Rightarrow> string list \<Rightarrow> world
     \<Rightarrow> py_exception option \<times> world" where
  "main cfg T session video_ids w =
     (case py_range_step (length video_ids) (batch_size cfg) of
        Inl e \<Rightarrow> (Some e, conn_rollback w)
      | Inr starts \<Rightarrow>
          (case main_loop cfg T session video_ids starts w of
             (Some e, w1) \<Rightarrow> (Some e, conn_rollback w1)
           | (None, w1) \<Rightarrow>
               (None, logging INFO ''All comments processed successfully.'' (conn_commit w1))))"

section \<open>Classified failures\<close>

text \<open>The responses of the first claim: any status other than 200 and, at 403, a
  payload whose reason and message do not indicate disabled comments.\<close>

definition other_failure :: "http_response \<Rightarrow> bool" where
  "other_failure r =
     (status r \<noteq> 200
      \<and> (status r = 403 \<longrightarrow>
           (case error_reason (json r) of
              Inl e \<Rightarrow> False
            | Inr rsn \<Rightarrow> \<not> str_in ''commentsDisabled'' rsn
                          \<and> \<not> str_in ''disabled comments'' (error_message (json r)))))"

text \<open>The error line \<open>fetch_comments\<close> writes for such a response.\<close>

definition failure_line :: "string \<Rightarrow> http_response \<Rightarrow> string" where
  "failure_line vid r =
     (if status r = 403 then
        ''403 Forbidden for video '' @ vid @ ''. Reason: '' @ projr (error_reason (json r))
          @ '', Message: '' @ error_message (json r)
      else ''Failed to fetch comments for video '' @ vid @ '': HTTP '' @ str_int (status r))"

section \<open>Example inputs\<close>

definition example_config :: config where
  "example_config = \<lparr>retries = 3, delay = 5, batch_size = 2\<rparr>"

definition example_tables :: html_tables where
  "example_tables =
     \<lparr>html5 = [(''amp;'', ''&''), (''amp'', ''&''), (''lt;'', ''<''), (''gt;'', ''>''),
               (''quot;'', [CHR 0x22])],
      codepoint = (\<lambda>n. if n < 128 then [char_of n] else ''?'')\<rparr>"

definition world0 :: world where
  "world0 = \<lparr>trace = [], committed = [], working = []\<rparr>"

definition example_snippet :: comment_snippet where
  "example_snippet =
     \<lparr>likeCount = Some 7, publishedAt = ''2024-01-01T00:00:00Z'',
      authorDisplayName = ''ann'', textDisplay = ''a &amp; b'',
      authorChannelId = Some \<lparr>value_field = Some ''UC1''\<rparr>,
      authorChannelUrl = None\<rparr>"

definition example_thread :: thread_item where
  "example_thread =
     \<lparr>thread_id = ''c1'',
      thread_snippet = \<lparr>totalReplyCount = Some 2,
                         topLevelComment = \<lparr>tlc_snippet = example_snippet\<rparr>\<rparr>\<rparr>"

definition example_reply :: reply_item where
  "example_reply = \<lparr>reply_id = ''c1.r1'', reply_snippet = example_snippet\<rparr>"

definition ok_response :: "thread_item list \<Rightarrow> http_response" where
  "ok_response its = \<lparr>status = 200, json = \<lparr>error = None, items = Some its\<rparr>\<rparr>"

definition error_response :: "int \<Rightarrow> string \<Rightarrow> string \<Rightarrow> http_response" where
  "error_response code rsn msg =
     \<lparr>status = code,
      json = \<lparr>error = Some \<lparr>errors = Some [\<lparr>reason = Some rsn\<rparr>], message = Some msg\<rparr>,
              items = None\<rparr>\<rparr>"

definition example_session :: "string \<Rightarrow> http_response" where
  "example_session vid =
     (if vid = ''v1'' then ok_response [example_thread]
      else if vid = ''v2'' then
        error_response 403 ''commentsDisabled''
          ''The video identified by the videoId parameter has disabled comments.''
      else if vid = ''v3'' then
        error_response 403 ''quotaExceeded'' ''The request cannot be completed.''
      else error_response 404 ''videoNotFound'' ''The video could not be found.'')"

definition example_execute :: "string \<Rightarrow> py_exception + replies_response" where
  "example_execute parent_id =
     (if parent_id = ''c1'' then Inr \<lparr>reply_items = Some [example_reply]\<rparr>
      else Inl (OtherException ''HttpError 404''))"

definition example_comment :: comment where
  "example_comment = thread_comment example_tables ''v1'' example_thread"

definition example_edited :: comment where
  "example_edited = example_comment\<lparr>text_c := ''edited'', like_count := 8\<rparr>"

definition example_store :: world where
  "example_store =
     \<lparr>trace = [], committed = [row_of example_comment], working = [row_of example_comment]\<rparr>"


section \<open>Batching\<close>

lemma ceil_step:
  fixes n i step :: nat
  assumes "0 < step" "i < n"
  shows "(n - i + step - 1) div step = Suc ((n - (i + step) + step - 1) div step)"
proof (cases "n - i < step")
  case True
  with assms have a: "(n - i + step - 1) div step = 1"
    by (intro div_nat_eqI) auto
  from True assms have "n - (i + step) = 0" by simp
  then have "(n - (i + step) + step - 1) div step = 0" using assms by simp
  with a show ?thesis by simp
next
  case False
  then have "n - i + step - 1 = (n - (i + step) + step - 1) + step" using assms by simp
  then show ?thesis using assms by (simp only: div_add_self2)
qed

lemma range_from_map:
  "0 < step \<Longrightarrow> range_from i n step = map (\<lambda>k. i + k * step) [0 ..< (n - i + step - 1) div step]"
proof (induction i n step rule: range_from.induct)
  case (1 i n step)
  show ?case
  proof (cases "n \<le> i")
    case True
    with 1(2) show ?thesis by simp
  next
    case False
    with 1 have IH: "range_from (i + step) n step = map (\<lambda>k. i + step + k * step) [0 ..< (n - (i + step) + step - 1) div step]"
      by simp
    from False 1(2) have c: "(n - i + step - 1) div step = Suc ((n - (i + step) + step - 1) div step)"
      by (intro ceil_step) auto
    have "range_from i n step = i # range_from (i + step) n step"
      using False 1(2) by simp
    also have "\<dots> = map (\<lambda>k. i + k * step) [0 ..< Suc ((n - (i + step) + step - 1) div step)]"
      unfolding IH by (simp add: upt_conv_Cons map_Suc_upt [symmetric] del: upt_Suc)
    finally show ?thesis using c by simp
  qed
qed

lemma concat_slices:
  "0 < B \<Longrightarrow> concat (map (\<lambda>k. take B (drop (k * B) xs)) [0 ..< m]) = take (m * B) xs"
proof (induction m)
  case 0 show ?case by simp
next
  case (Suc m)
  have "take (m * B) xs @ take B (drop (m * B) xs) = take (m * B + B) xs"
    by (simp add: take_add)
  with Suc show ?case by (simp add: add.commute)
qed

lemma ceil_covers: "0 < B \<Longrightarrow> (n::nat) \<le> ((n + B - 1) div B) * B"
proof -
  assume B: "0 < B"
  have "n + B - 1 = ((n + B - 1) div B) * B + (n + B - 1) mod B" by simp
  moreover have "(n + B - 1) mod B \<le> B - 1" using B
    by (metis Suc_pred' less_Suc_eq_le mod_less_divisor)
  ultimately show ?thesis using B by linarith
qed

lemma slice_length:
  fixes n B k :: nat
  assumes B: "0 < B" and k: "k < (n + B - 1) div B"
  shows "min B (n - k * B) = (if Suc k < (n + B - 1) div B then B else if n mod B = 0 then B else n mod B)"
proof -
  let ?m = "(n + B - 1) div B"
  show ?thesis
  proof (cases "Suc k < ?m")
    case True
    then have "Suc (Suc k) \<le> ?m" by simp
    then have "Suc (Suc k) * B \<le> ?m * B" using mult_le_mono1 by blast
    also have "?m * B \<le> n + B - 1" by simp
    finally have "Suc k * B + B \<le> n + B - 1" by simp
    then have "Suc k * B \<le> n" using B by linarith
    then have "B \<le> n - k * B" by simp
    with True show ?thesis by simp
  next
    case False
    with k have km: "?m = Suc k" by simp
    show ?thesis
    proof (cases "n mod B = 0")
      case True
      have n: "n = (n div B) * B" using True by (metis div_mult_mod_eq add.right_neutral)
      have "?m = n div B"
      proof (rule div_nat_eqI)
        show "B * (n div B) \<le> n + B - 1" using n B by (simp add: mult.commute)
        show "n + B - 1 < B * Suc (n div B)" using n B by (simp add: mult.commute)
      qed
      with km n have "n - k * B = B" by (metis add_diff_cancel_left' mult_Suc add.commute)
      with False True show ?thesis by simp
    next
      case nz: False
      have n: "n = (n div B) * B + n mod B" by simp
      have lt: "n mod B < B" using B by simp
      have "?m = Suc (n div B)"
      proof (rule div_nat_eqI)
        have "(n div B) * B + B \<le> n + B - 1" using nz n by linarith
        then show "B * Suc (n div B) \<le> n + B - 1" by (simp add: mult.commute)
        have "n + B - 1 < (n div B) * B + B + B" using lt n by linarith
        then show "n + B - 1 < B * Suc (Suc (n div B))" by (simp add: mult.commute)
      qed
      then have "k = n div B" using km by simp
      then have "n - k * B = n mod B" by (metis n add_diff_cancel_left')
      then show ?thesis using False nz lt by simp
    qed
  qed
qed

text \<open>
  C4. For a list of \<open>N\<close> video identifiers and a batch size \<open>B > 0\<close>, the loop of
  \<open>main\<close> cuts the list into \<open>ceil(N/B)\<close> slices: slice \<open>k\<close> is the \<open>B\<close> identifiers from
  position \<open>k * B\<close> on, each slice has exactly \<open>B\<close> identifiers except possibly the
  last, which has \<open>N mod B\<close> when that is not zero and \<open>B\<close> otherwise, and the slices
  concatenated give the list back.
\<close>

theorem batches_partition:
  fixes cfg :: config and video_ids :: "string list"
  defines "B \<equiv> nat (batch_size cfg)" and "N \<equiv> length video_ids"
  assumes pos: "0 < batch_size cfg"
  shows "\<exists>bs. batches cfg video_ids = Inr bs
           \<and> length bs = (N + B - 1) div B
           \<and> concat bs = video_ids
           \<and> (\<forall>k < length bs.
                 bs ! k = take B (drop (k * B) video_ids)
                 \<and> length (bs ! k) =
                     (if Suc k < length bs then B else if N mod B = 0 then B else N mod B))"
proof -
  let ?m = "(N + B - 1) div B"
  let ?bs = "map (\<lambda>k. take B (drop (k * B) video_ids)) [0 ..< ?m]"
  from pos have B: "0 < B" by (simp add: B_def)
  have starts: "range_from 0 N B = map (\<lambda>k. k * B) [0 ..< ?m]"
    using range_from_map [OF B, of 0 N] by simp
  have eq: "batches cfg video_ids = Inr ?bs"
    using pos starts
    by (simp add: batches_def py_range_step_def batch_at_def B_def N_def comp_def)
  have len: "length ?bs = ?m" by simp
  have cat: "concat ?bs = video_ids"
    using concat_slices [OF B, of video_ids ?m] ceil_covers [OF B, of N]
    by (simp add: N_def)
  have each: "?bs ! k = take B (drop (k * B) video_ids)
        \<and> length (?bs ! k) = (if Suc k < length ?bs then B else if N mod B = 0 then B else N mod B)"
    if "k < length ?bs" for k
    using that slice_length [OF B, of k N] by (simp add: N_def)
  from eq len cat each show ?thesis by blast
qed

theorem batches_partition_witness:
  "0 < batch_size example_config
   \<and> batches example_config [''a'', ''b'', ''c'', ''d'', ''e'']
       = Inr [[''a'', ''b''], [''c'', ''d''], [''e'']]
   \<and> (length [''a'', ''b'', ''c'', ''d'', ''e''] + nat (batch_size example_config) - 1)
         div nat (batch_size example_config) = (3::nat)"
proof -
  have pos: "0 < batch_size example_config" by (simp add: example_config_def)
  from batches_partition [OF pos, of "[''a'', ''b'', ''c'', ''d'', ''e'']"]
  obtain bs where bs: "batches example_config [''a'', ''b'', ''c'', ''d'', ''e''] = Inr bs"
    and "concat bs = [''a'', ''b'', ''c'', ''d'', ''e'']"
    by blast
  have "batches example_config [''a'', ''b'', ''c'', ''d'', ''e'']
       = Inr [[''a'', ''b''], [''c'', ''d''], [''e'']]"
    by code_simp
  with pos bs show ?thesis by (simp add: example_config_def)
qed


section \<open>Fetching: results\<close>


lemma fetch_comments_result_indep:
  "fst (fetch_comments T session vid w) = fst (fetch_comments T session vid w')"
  by (simp add: fetch_comments_def Let_def split: sum.splits)

lemma fetch_comments_cases:
  assumes "fst (fetch_comments T session vid w) = Inr cs"
  shows "cs = [] \<or> (\<exists>its. cs = map (thread_comment T vid) its)"
  using assms by (auto simp: fetch_comments_def Let_def split: sum.splits if_splits)

lemma comprehension_concat:
  "concat (map (\<lambda>result. filter (\<lambda>comment. result \<noteq> []) result) results) = concat results"
proof (induction results)
  case Nil
  show ?case by simp
next
  case (Cons r rs)
  have "filter (\<lambda>comment. r \<noteq> []) r = r" by (cases r) simp_all
  with Cons show ?case by simp
qed

lemma gather_results:
  "fst (gather T session vids w) = Inr results \<Longrightarrow>
     length results = length vids
     \<and> (\<forall>k < length vids. \<forall>w'. fst (fetch_comments T session (vids ! k) w') = Inr (results ! k))"
proof (induction vids arbitrary: w results)
  case Nil
  then show ?case by simp
next
  case (Cons v vs)
  obtain r1 w1 where f: "fetch_comments T session v w = (r1, w1)" by (cases "fetch_comments T session v w")
  obtain r2 w2 where g: "gather T session vs w1 = (r2, w2)" by (cases "gather T session vs w1")
  from Cons.prems f g obtain res ress where r1: "r1 = Inr res" and r2: "r2 = Inr ress" and rs: "results = res # ress"
    by (auto split: sum.splits)
  from Cons.IH [of w1 ress] g r2
  have IH: "length ress = length vs" "\<And>k w'. k < length vs \<Longrightarrow> fst (fetch_comments T session (vs ! k) w') = Inr (ress ! k)"
    by auto
  have hd: "fst (fetch_comments T session v w') = Inr res" for w'
    using f r1 fetch_comments_result_indep [of T session v w' w] by simp
  show ?case
  proof (intro conjI allI impI)
    show "length results = length (v # vs)" using rs IH(1) by simp
    fix k w' assume "k < length (v # vs)"
    then show "fst (fetch_comments T session ((v # vs) ! k) w') = Inr (results ! k)"
      using hd IH(2) rs by (cases k) auto
  qed
qed

lemma gather_returns:
  "(\<And>v. v \<in> set vids \<Longrightarrow> \<not> isl (fst (fetch_comments T session v w0)))
     \<Longrightarrow> \<not> isl (fst (gather T session vids w))"
proof (induction vids arbitrary: w)
  case Nil
  then show ?case by simp
next
  case (Cons v vs)
  obtain r1 w1 where f: "fetch_comments T session v w = (r1, w1)" by (cases "fetch_comments T session v w")
  have "\<not> isl (fst (fetch_comments T session v w))"
    using Cons.prems [of v] fetch_comments_result_indep [of T session v w w0] by simp
  with f obtain res where r1: "r1 = Inr res" by (cases r1) auto
  have "\<not> isl (fst (gather T session vs w1))" using Cons by simp
  then show ?case using f r1 by (auto split: sum.splits prod.splits)
qed

section \<open>The normalizer\<close>






section \<open>The parent-link invariant\<close>

lemma thread_comment_invariant: "link_invariant (thread_comment T vid item)"
  by (simp add: link_invariant_def thread_comment_def Let_def)

lemma reply_comment_invariant:
  "link_invariant (reply_comment T parent_id vid item)
   \<and> reply_count (reply_comment T parent_id vid item) = 0"
  by (simp add: link_invariant_def reply_comment_def Let_def)

lemma fetch_comments_invariant:
  assumes "fst (fetch_comments T session vid w) = Inr cs" and "c \<in> set cs"
  shows "link_invariant c \<and> video_id c = vid"
proof -
  from fetch_comments_cases [OF assms(1)] assms(2)
  obtain its where "cs = map (thread_comment T vid) its" by auto
  with assms(2) obtain item where "c = thread_comment T vid item" by auto
  then show ?thesis
    using thread_comment_invariant [of T vid item] by (simp add: thread_comment_def Let_def)
qed

lemma process_video_batch_result:
  assumes "fst (process_video_batch T session video_ids w) = Inr comments"
  shows "\<exists>results. fst (gather T session video_ids w) = Inr results \<and> comments = concat results"
proof -
  obtain r w1 where g: "gather T session video_ids w = (r, w1)"
    by (cases "gather T session video_ids w")
  with assms obtain results where "r = Inr results"
    and "comments = concat (map (\<lambda>result. filter (\<lambda>comment. result \<noteq> []) result) results)"
    by (auto simp: process_video_batch_def split: sum.splits)
  with g show ?thesis by (simp add: comprehension_concat)
qed

lemma process_video_batch_invariant:
  assumes "fst (process_video_batch T session video_ids w) = Inr comments" and "c \<in> set comments"
  shows "link_invariant c"
proof -
  from process_video_batch_result [OF assms(1)]
  obtain results where g: "fst (gather T session video_ids w) = Inr results"
    and cat: "comments = concat results" by blast
  from cat assms(2) obtain r where "r \<in> set results" and "c \<in> set r" by auto
  then obtain k where k: "k < length results" and c: "c \<in> set (results ! k)"
    by (metis in_set_conv_nth)
  from gather_results [OF g] k
  have "fst (fetch_comments T session (video_ids ! k) w) = Inr (results ! k)" by simp
  from fetch_comments_invariant [OF this c] show ?thesis by simp
qed

lemma retry_loop_all_raise:
  assumes "\<And>k. isl (operation k)" and "0 \<le> delay cfg"
  shows "retry_loop cfg operation vid ks w =
     (Inr [],
      w\<lparr>trace := trace w
          @ concat (map (\<lambda>k. [Call vid,
                               Log ERROR (''Attempt '' @ str_int (int k + 1)
                                 @ '' failed for video '' @ vid @ '': ''
                                 @ exc_str (projl (operation k))),
                               Sleep (delay cfg)]) ks)
          @ [Log ERROR (''All '' @ str_int (retries cfg)
               @ '' attempts failed for video '' @ vid)]\<rparr>)"
proof (induction ks arbitrary: w)
  case Nil
  show ?case by (simp add: logging_def emit_def)
next
  case (Cons k ks)
  from assms(1) [of k] obtain e where e: "operation k = Inl e" by (cases "operation k") auto
  show ?case
    using assms(2) e Cons.IH
    by (simp add: Let_def time_sleep_def logging_def emit_def)
qed

text \<open>
  C8. Every comment that a code path produces has \<open>is_reply_to = None\<close> exactly when
  \<open>is_reply\<close> is false: the comments \<open>fetch_comments\<close> returns, those
  \<open>process_video_batch\<close> aggregates, those \<open>fetch_replies\<close> returns and those
  \<open>fetch_comments_with_retry\<close> returns. Every comment of \<open>fetch_replies\<close> has
  \<open>reply_count = 0\<close>.
\<close>

theorem produced_comments_invariant:
  "(fst (fetch_comments T session vid w) = Inr cs1 \<longrightarrow> (\<forall>c \<in> set cs1. link_invariant c))
   \<and> (fst (process_video_batch T session video_ids w) = Inr cs2
        \<longrightarrow> (\<forall>c \<in> set cs2. link_invariant c))
   \<and> (fetch_replies T execute parent_id vid = Inr cs3
        \<longrightarrow> (\<forall>c \<in> set cs3. link_invariant c \<and> reply_count c = 0))
   \<and> (fst (fetch_comments_with_retry cfg vid w) = Inr cs4
        \<longrightarrow> (\<forall>c \<in> set cs4. link_invariant c))"
proof (intro conjI impI ballI)
  fix c assume "fst (fetch_comments T session vid w) = Inr cs1" "c \<in> set cs1"
  from fetch_comments_invariant [OF this] show "link_invariant c" by simp
next
  fix c assume "fst (process_video_batch T session video_ids w) = Inr cs2" "c \<in> set cs2"
  then show "link_invariant c" by (rule process_video_batch_invariant)
next
  fix c assume r: "fetch_replies T execute parent_id vid = Inr cs3" and c: "c \<in> set cs3"
  from r obtain its where "cs3 = map (reply_comment T parent_id vid) its"
    by (auto simp: fetch_replies_def split: sum.splits)
  with c obtain item where "c = reply_comment T parent_id vid item" by auto
  with reply_comment_invariant [of T parent_id vid item]
  show "link_invariant c" and "reply_count c = 0" by simp_all
next
  fix c assume r: "fst (fetch_comments_with_retry cfg vid w) = Inr cs4" and c: "c \<in> set cs4"
  have "cs4 = []"
  proof (cases "0 \<le> delay cfg")
    case True
    have "isl (fetch_comments_one_arg vid)" by (simp add: fetch_comments_one_arg_def)
    from retry_loop_all_raise [where operation = "\<lambda>attempt. fetch_comments_one_arg vid", OF this True]
    show ?thesis using r by (simp add: fetch_comments_with_retry_def with_retry_def)
  next
    case False
    show ?thesis
    proof (cases "py_range (retries cfg)")
      case Nil
      with r show ?thesis
        by (simp add: fetch_comments_with_retry_def with_retry_def)
    next
      case (Cons k ks)
      with r False show ?thesis
        by (simp add: fetch_comments_with_retry_def with_retry_def fetch_comments_one_arg_def
            Let_def time_sleep_def)
    qed
  qed
  with c show "link_invariant c" by simp
qed

theorem produced_comments_invariant_witness:
  "fst (fetch_comments example_tables example_session ''v1'' world0)
     = Inr [thread_comment example_tables ''v1'' example_thread]
   \<and> fst (process_video_batch example_tables example_session [''v1'', ''v2''] world0)
     = Inr [thread_comment example_tables ''v1'' example_thread]
   \<and> fetch_replies example_tables example_execute ''c1'' ''v1''
     = Inr [reply_comment example_tables ''c1'' ''v1'' example_reply]
   \<and> fst (fetch_comments_with_retry example_config ''v1'' world0) = Inr []
   \<and> link_invariant (thread_comment example_tables ''v1'' example_thread)
   \<and> link_invariant (reply_comment example_tables ''c1'' ''v1'' example_reply)
   \<and> reply_count (reply_comment example_tables ''c1'' ''v1'' example_reply) = 0"
proof -
  have a: "fst (fetch_comments example_tables example_session ''v1'' world0)
     = Inr [thread_comment example_tables ''v1'' example_thread]"
    by (simp add: fetch_comments_def example_session_def ok_response_def Let_def)
  have p: "fst (process_video_batch example_tables example_session [''v1'', ''v2''] world0)
     = Inr [thread_comment example_tables ''v1'' example_thread]"
    by (simp add: process_video_batch_def fetch_comments_def example_session_def
        ok_response_def error_response_def error_reason_def error_message_def Let_def)
  have b: "fetch_replies example_tables example_execute ''c1'' ''v1''
     = Inr [reply_comment example_tables ''c1'' ''v1'' example_reply]"
    by (simp add: fetch_replies_def example_execute_def)
  have r: "fst (fetch_comments_with_retry example_config ''v1'' world0) = Inr []"
    using retry_loop_all_raise
      [where operation = "\<lambda>attempt. fetch_comments_one_arg ''v1''" and cfg = example_config]
    by (simp add: fetch_comments_with_retry_def with_retry_def fetch_comments_one_arg_def
        example_config_def)
  from produced_comments_invariant
    [where T = example_tables and session = example_session and vid = "''v1''" and w = world0
       and ?cs1.0 = "[thread_comment example_tables ''v1'' example_thread]"
       and video_ids = "[''v1'', ''v2'']"
       and ?cs2.0 = "[thread_comment example_tables ''v1'' example_thread]"
       and execute = example_execute and parent_id = "''c1''"
       and ?cs3.0 = "[reply_comment example_tables ''c1'' ''v1'' example_reply]"
       and cfg = example_config and ?cs4.0 = "[]"]
    a p b r
  show ?thesis by simp
qed

section \<open>The aggregate of a batch\<close>




section \<open>What a fetch does to the world\<close>

lemma log_lines_append: "log_lines (xs @ ys) = log_lines xs @ log_lines ys"
  by (induction xs rule: log_lines.induct) simp_all

lemma sleeps_append: "sleeps (xs @ ys) = sleeps xs @ sleeps ys"
  by (induction xs rule: sleeps.induct) simp_all

lemma requests_append: "requests (xs @ ys) = requests xs @ requests ys"
  by (induction xs rule: requests.induct) simp_all

lemma calls_append: "calls (xs @ ys) = calls xs @ calls ys"
  by (induction xs rule: calls.induct) simp_all




text \<open>An \<open>errors\<close> array that is present and empty: line 62 raises before the test of
  line 65, whatever the message says.\<close>

lemma fetch_comments_empty_errors:
  assumes "status (session vid) = 403"
    and "error (json (session vid)) = Some eo" and "errors eo = Some []"
  shows "fst (fetch_comments T session vid w) = Inl (IndexError ''list index out of range'')"
  using assms by (simp add: fetch_comments_def error_reason_def Let_def)

section \<open>Failed fetches\<close>

lemma fetch_comments_failure:
  assumes "other_failure (session vid)"
  shows "fetch_comments T session vid w =
           (Inr [], w\<lparr>trace := trace w @
              [HttpGet vid, Log ERROR (failure_line vid (session vid))]\<rparr>)"
  using assms
  by (cases "error_reason (json (session vid))")
     (auto simp: other_failure_def failure_line_def fetch_comments_def Let_def
        logging_def emit_def)

lemma gather_failures:
  assumes "\<forall>v \<in> set vids. other_failure (session v)"
  shows "gather T session vids w =
           (Inr (map (\<lambda>v. []) vids),
            w\<lparr>trace := trace w @
               concat (map (\<lambda>v. [HttpGet v, Log ERROR (failure_line v (session v))]) vids)\<rparr>)"
  using assms
proof (induction vids arbitrary: w)
  case Nil
  show ?case by simp
next
  case (Cons v vs)
  have f: "fetch_comments T session v w =
           (Inr [], w\<lparr>trace := trace w @ [HttpGet v, Log ERROR (failure_line v (session v))]\<rparr>)"
    using Cons.prems by (intro fetch_comments_failure) simp
  have "\<forall>v \<in> set vs. other_failure (session v)" using Cons.prems by simp
  from Cons.IH [OF this] f show ?case by simp
qed

lemma with_retry_first_returns:
  assumes "operation 0 = Inr r" and "0 < retries cfg"
  shows "with_retry cfg operation vid w = (Inr r, emit (Call vid) w)"
proof -
  from assms(2) have "py_range (retries cfg) = 0 # [Suc 0 ..< nat (retries cfg)]"
    by (simp add: py_range_def upt_conv_Cons)
  with assms(1) show ?thesis by (simp add: with_retry_def Let_def)
qed

text \<open>
  C1, as the code has it. For a response with a status other than 200 that does not
  indicate disabled comments, \<open>fetch_comments\<close> writes one line at level ERROR and
  returns the empty list; it does not raise. The retry loop retries an operation
  that raises: a fetch that returns, be it the empty list, is invoked once, with no
  sleep. \<open>process_video_batch\<close> makes one GET for each identifier of the batch, no
  sleep and no invocation of the retry loop, and returns the empty list.
\<close>

theorem failed_fetch_not_retried:
  assumes "\<forall>v \<in> set video_ids. other_failure (session v)"
  shows "fst (process_video_batch T session video_ids w) = Inr []
         \<and> requests (trace (snd (process_video_batch T session video_ids w)))
             = requests (trace w) @ video_ids
         \<and> sleeps (trace (snd (process_video_batch T session video_ids w))) = sleeps (trace w)
         \<and> calls (trace (snd (process_video_batch T session video_ids w))) = calls (trace w)
         \<and> map fst (log_lines (trace (snd (process_video_batch T session video_ids w))))
             = map fst (log_lines (trace w)) @ replicate (length video_ids) ERROR
         \<and> (\<forall>v \<in> set video_ids.
               fetch_comments T session v w =
                 (Inr [], w\<lparr>trace := trace w @
                    [HttpGet v, Log ERROR (failure_line v (session v))]\<rparr>)
               \<and> (0 < retries cfg \<longrightarrow>
                    with_retry cfg (\<lambda>attempt. fst (fetch_comments T session v w)) v w
                      = (Inr [], emit (Call v) w)))"
proof -
  let ?es = "\<lambda>vs. concat (map (\<lambda>v. [HttpGet v, Log ERROR (failure_line v (session v))]) vs)"
  have r: "requests (?es vs) = vs" for vs by (induction vs) simp_all
  have s: "sleeps (?es vs) = []" for vs by (induction vs) simp_all
  have c: "calls (?es vs) = []" for vs by (induction vs) simp_all
  have l: "map fst (log_lines (?es vs)) = replicate (length vs) ERROR" for vs
    by (induction vs) simp_all
  have z: "concat (map (\<lambda>v. []) vs) = ([] :: comment list)" for vs :: "string list"
    by (induction vs) simp_all
  have p: "process_video_batch T session video_ids w =
             (Inr [], w\<lparr>trace := trace w @ ?es video_ids\<rparr>)"
    by (simp add: process_video_batch_def gather_failures [OF assms] comprehension_concat z)
  have one: "fetch_comments T session v w =
                 (Inr [], w\<lparr>trace := trace w @
                    [HttpGet v, Log ERROR (failure_line v (session v))]\<rparr>)
             \<and> (0 < retries cfg \<longrightarrow>
                    with_retry cfg (\<lambda>attempt. fst (fetch_comments T session v w)) v w
                      = (Inr [], emit (Call v) w))"
    if "v \<in> set video_ids" for v
  proof -
    from that assms have "other_failure (session v)" by blast
    then have f: "fetch_comments T session v w =
                 (Inr [], w\<lparr>trace := trace w @
                    [HttpGet v, Log ERROR (failure_line v (session v))]\<rparr>)"
      by (rule fetch_comments_failure)
    then have "(\<lambda>attempt. fst (fetch_comments T session v w)) 0 = Inr []" by simp
    from with_retry_first_returns [OF this] f show ?thesis by blast
  qed
  have p1: "fst (process_video_batch T session video_ids w) = Inr []" unfolding p by simp
  have p2: "requests (trace (snd (process_video_batch T session video_ids w)))
             = requests (trace w) @ video_ids"
    unfolding p by (simp add: requests_append r)
  have p3: "sleeps (trace (snd (process_video_batch T session video_ids w))) = sleeps (trace w)"
    unfolding p by (simp add: sleeps_append s)
  have p4: "calls (trace (snd (process_video_batch T session video_ids w))) = calls (trace w)"
    unfolding p by (simp add: calls_append c)
  have p5: "map fst (log_lines (trace (snd (process_video_batch T session video_ids w))))
             = map fst (log_lines (trace w)) @ replicate (length video_ids) ERROR"
    unfolding p by (simp add: log_lines_append l)
  from p1 p2 p3 p4 p5 one show ?thesis by blast
qed

theorem failed_fetch_not_retried_witness:
  "other_failure (example_session ''v3'') \<and> other_failure (example_session ''v4'')
   \<and> fst (process_video_batch example_tables example_session [''v3'', ''v4''] world0) = Inr []
   \<and> requests (trace (snd (process_video_batch example_tables example_session
                              [''v3'', ''v4''] world0))) = [''v3'', ''v4'']
   \<and> sleeps (trace (snd (process_video_batch example_tables example_session
                            [''v3'', ''v4''] world0))) = []
   \<and> map fst (log_lines (trace (snd (process_video_batch example_tables example_session
                                        [''v3'', ''v4''] world0)))) = [ERROR, ERROR]
   \<and> fetch_comments example_tables example_session ''v4'' world0
       = (Inr [], world0\<lparr>trace := [HttpGet ''v4'',
            Log ERROR ''Failed to fetch comments for video v4: HTTP 404'']\<rparr>)"
proof -
  have a3: "other_failure (example_session ''v3'')"
    by (simp add: other_failure_def example_session_def error_response_def error_reason_def
        error_message_def)
  have a4: "other_failure (example_session ''v4'')"
    by (simp add: other_failure_def example_session_def error_response_def)
  from a3 a4 have a: "\<forall>v \<in> set [''v3'', ''v4'']. other_failure (example_session v)" by simp
  have n: "str_int 404 = ''404''" by code_simp
  have l4: "failure_line ''v4'' (example_session ''v4'')
      = ''Failed to fetch comments for video v4: HTTP 404''"
    by (simp add: failure_line_def example_session_def error_response_def n)
  from failed_fetch_not_retried [OF a, of example_tables world0] a3 a4
  show ?thesis by (simp add: l4 world0_def numeral_2_eq_2)
qed

text \<open>
  C1, as the claim has it, fails: with \<open>RETRIES = 3\<close> and a server that answers every
  request with 403 and reason \<open>quotaExceeded\<close>, the claim asks for three fetches of
  the video with two sleeps between them; the batch makes one fetch and no sleep.
\<close>

theorem retry_on_failure_counterexample:
  "retries example_config = 3
   \<and> status (example_session ''v3'') = 403
   \<and> error_reason (json (example_session ''v3'')) = Inr ''quotaExceeded''
   \<and> \<not> str_in ''commentsDisabled'' ''quotaExceeded''
   \<and> \<not> str_in ''disabled comments'' (error_message (json (example_session ''v3'')))
   \<and> requests (trace (snd (process_video_batch example_tables example_session [''v3''] world0)))
       = [''v3'']
   \<and> sleeps (trace (snd (process_video_batch example_tables example_session [''v3''] world0)))
       = []
   \<and> length (requests (trace (snd (process_video_batch example_tables example_session [''v3''] world0))))
       \<noteq> nat (retries example_config)"
  by (simp add: example_config_def process_video_batch_def fetch_comments_def
      example_session_def error_response_def error_reason_def error_message_def
      Let_def logging_def emit_def world0_def)

section \<open>The retry loop\<close>

text \<open>
  C3, as the code has it. When the wrapped operation raises at every attempt and
  \<open>DELAY\<close> is not negative, the loop invokes it \<open>RETRIES\<close> times (no time when
  \<open>RETRIES\<close> is negative); after each failed attempt, the last one included, it logs
  the attempt with its number, counted from 1, and the error, and then sleeps
  \<open>DELAY\<close>; at the end it logs that all attempts failed and returns the empty list.
\<close>

theorem retry_exhausted:
  assumes "\<forall>k. isl (operation k)" and "0 \<le> delay cfg"
  shows "with_retry cfg operation vid w =
           (Inr [],
            w\<lparr>trace := trace w
               @ concat (map (\<lambda>k. [Call vid,
                                    Log ERROR (''Attempt '' @ str_int (int k + 1)
                                      @ '' failed for video '' @ vid @ '': ''
                                      @ exc_str (projl (operation k))),
                                    Sleep (delay cfg)]) [0 ..< nat (retries cfg)])
               @ [Log ERROR (''All '' @ str_int (retries cfg)
                    @ '' attempts failed for video '' @ vid)]\<rparr>)
         \<and> calls (trace (snd (with_retry cfg operation vid w)))
             = calls (trace w) @ replicate (nat (retries cfg)) vid
         \<and> sleeps (trace (snd (with_retry cfg operation vid w)))
             = sleeps (trace w) @ replicate (nat (retries cfg)) (delay cfg)
         \<and> log_lines (trace (snd (with_retry cfg operation vid w)))
             = log_lines (trace w)
               @ map (\<lambda>k. (ERROR, ''Attempt '' @ str_int (int k + 1)
                               @ '' failed for video '' @ vid @ '': ''
                               @ exc_str (projl (operation k)))) [0 ..< nat (retries cfg)]
               @ [(ERROR, ''All '' @ str_int (retries cfg)
                     @ '' attempts failed for video '' @ vid)]"
proof -
  let ?ev = "\<lambda>k. [Call vid,
                   Log ERROR (''Attempt '' @ str_int (int k + 1)
                     @ '' failed for video '' @ vid @ '': ''
                     @ exc_str (projl (operation k))),
                   Sleep (delay cfg)]"
  have c: "calls (concat (map ?ev ks)) = replicate (length ks) vid" for ks
    by (induction ks) simp_all
  have s: "sleeps (concat (map ?ev ks)) = replicate (length ks) (delay cfg)" for ks
    by (induction ks) simp_all
  have l: "log_lines (concat (map ?ev ks))
      = map (\<lambda>k. (ERROR, ''Attempt '' @ str_int (int k + 1)
                               @ '' failed for video '' @ vid @ '': ''
                               @ exc_str (projl (operation k)))) ks" for ks
    by (induction ks) simp_all
  from assms(1) have r: "\<And>k. isl (operation k)" by simp
  have eq: "with_retry cfg operation vid w =
           (Inr [],
            w\<lparr>trace := trace w @ concat (map ?ev [0 ..< nat (retries cfg)])
               @ [Log ERROR (''All '' @ str_int (retries cfg)
                    @ '' attempts failed for video '' @ vid)]\<rparr>)"
    unfolding with_retry_def py_range_def
    by (rule retry_loop_all_raise [OF r assms(2)])
  let ?last = "[Log ERROR (''All '' @ str_int (retries cfg)
                    @ '' attempts failed for video '' @ vid)]"
  have tr: "trace (snd (with_retry cfg operation vid w))
      = trace w @ concat (map ?ev [0 ..< nat (retries cfg)]) @ ?last"
    unfolding eq by simp
  have c1: "calls (trace (snd (with_retry cfg operation vid w)))
             = calls (trace w) @ replicate (nat (retries cfg)) vid"
    unfolding tr calls_append c by simp
  have s1: "sleeps (trace (snd (with_retry cfg operation vid w)))
             = sleeps (trace w) @ replicate (nat (retries cfg)) (delay cfg)"
    unfolding tr sleeps_append s by simp
  have l1: "log_lines (trace (snd (with_retry cfg operation vid w)))
             = log_lines (trace w)
               @ map (\<lambda>k. (ERROR, ''Attempt '' @ str_int (int k + 1)
                               @ '' failed for video '' @ vid @ '': ''
                               @ exc_str (projl (operation k)))) [0 ..< nat (retries cfg)]
               @ [(ERROR, ''All '' @ str_int (retries cfg)
                     @ '' attempts failed for video '' @ vid)]"
    unfolding tr log_lines_append l by simp
  from eq c1 s1 l1 show ?thesis by (intro conjI)
qed

theorem retry_exhausted_witness:
  "isl (fetch_comments_one_arg ''v1'') \<and> 0 \<le> delay example_config
   \<and> fst (fetch_comments_with_retry example_config ''v1'' world0) = Inr []
   \<and> calls (trace (snd (fetch_comments_with_retry example_config ''v1'' world0)))
       = [''v1'', ''v1'', ''v1'']
   \<and> sleeps (trace (snd (fetch_comments_with_retry example_config ''v1'' world0))) = [5, 5, 5]
   \<and> map fst (log_lines (trace (snd (fetch_comments_with_retry example_config ''v1'' world0))))
       = [ERROR, ERROR, ERROR, ERROR]"
proof -
  have a: "\<forall>k. isl ((\<lambda>attempt. fetch_comments_one_arg ''v1'') k)"
    by (simp add: fetch_comments_one_arg_def)
  have b: "0 \<le> delay example_config" by (simp add: example_config_def)
  have n: "nat (retries example_config) = Suc (Suc (Suc 0))" by (simp add: example_config_def)
  from retry_exhausted [OF a b, of "''v1''" world0] a b
  show ?thesis
    by (simp add: fetch_comments_with_retry_def n world0_def)
       (simp add: example_config_def)
qed

text \<open>
  C3, as the claim has it, fails: with \<open>RETRIES = 3\<close> and \<open>DELAY = 5\<close> the loop sleeps
  three times, once after each of the three attempts, the last one included, where
  the claim has two sleeps, between the attempts only.
\<close>

theorem sleep_between_attempts_counterexample:
  "retries example_config = 3
   \<and> filter attempt_or_sleep (trace (snd (fetch_comments_with_retry example_config ''v1'' world0)))
       = [Call ''v1'', Sleep 5, Call ''v1'', Sleep 5, Call ''v1'', Sleep 5]
   \<and> length (sleeps (trace (snd (fetch_comments_with_retry example_config ''v1'' world0))))
       \<noteq> nat (retries example_config) - 1"
proof -
  have r: "py_range 3 = [0, 1, 2]" by code_simp
  show ?thesis
    by (simp add: fetch_comments_with_retry_def with_retry_def example_config_def r
        fetch_comments_one_arg_def Let_def time_sleep_def logging_def emit_def world0_def)
qed

section \<open>The store: insert if absent\<close>

lemma insert_or_ignore_ids:
  "row_id ` set (insert_or_ignore t r) = insert (row_id r) (row_id ` set t)"
  by (simp add: insert_or_ignore_def insert_absorb)

lemma foldl_insert_ids:
  "row_id ` set (foldl insert_or_ignore t rs) = row_id ` set t \<union> row_id ` set rs"
proof (induction rs arbitrary: t)
  case Nil
  show ?case by simp
next
  case (Cons r rs)
  show ?case unfolding foldl_Cons Cons.IH insert_or_ignore_ids by auto
qed

lemma foldl_insert_present:
  "row_id ` set rs \<subseteq> row_id ` set t \<Longrightarrow> foldl insert_or_ignore t rs = t"
  by (induction rs) (simp_all add: insert_or_ignore_def)

lemma foldl_insert_distinct:
  "distinct (map row_id t) \<Longrightarrow> distinct (map row_id (foldl insert_or_ignore t rs))"
proof (induction rs arbitrary: t)
  case Nil
  then show ?case by simp
next
  case (Cons r rs)
  have "distinct (map row_id (insert_or_ignore t r))"
    using Cons.prems by (simp add: insert_or_ignore_def)
  from Cons.IH [OF this] show ?case by simp
qed

lemma foldl_insert_extends: "\<exists>new. foldl insert_or_ignore t rs = t @ new"
proof (induction rs arbitrary: t)
  case Nil
  show ?case by simp
next
  case (Cons r rs)
  obtain new where n: "foldl insert_or_ignore (insert_or_ignore t r) rs = insert_or_ignore t r @ new"
    using Cons.IH by blast
  show ?case
  proof (cases "row_id r \<in> row_id ` set t")
    case True
    then have "insert_or_ignore t r = t" by (simp add: insert_or_ignore_def)
    with n show ?thesis by simp
  next
    case False
    then have "insert_or_ignore t r = t @ [r]" by (simp add: insert_or_ignore_def)
    with n show ?thesis by simp
  qed
qed


lemma foldl_insert_twice:
  "foldl insert_or_ignore (foldl insert_or_ignore t rs) rs = foldl insert_or_ignore t rs"
  by (rule foldl_insert_present) (simp add: foldl_insert_ids)

lemma working_insert_comments_batch:
  "working (insert_comments_batch cs w) = foldl insert_or_ignore (working w) (map row_of cs)"
  by (simp add: insert_comments_batch_def executemany_def emit_def)

lemma committed_insert_comments_batch:
  "committed (insert_comments_batch cs w) = committed w"
  by (simp add: insert_comments_batch_def executemany_def emit_def)

lemma row_id_row_of: "row_id (row_of c) = id_c c"
  by (simp add: row_id_def row_of_def)

text \<open>
  C5. In a table whose \<open>id\<close>s are distinct, as its primary key keeps them, inserting
  a comment whose \<open>id\<close> is already there, with the same or with other field values,
  leaves the table as it is: the row with that \<open>id\<close> is still the one row that was
  there. Of two comments with one \<open>id\<close> inserted in a row, the second is ignored.
  Inserting a batch twice gives what inserting it once gives, the \<open>id\<close>s stay
  distinct, and the rows that were in the table stay as they were, at their places.
\<close>

theorem insert_if_absent_idempotent:
  assumes pk: "distinct (map row_id (working w))"
    and dup: "id_c c \<in> set (map row_id (working w))"
  shows "working (insert_comments_batch [c] w) = working w
         \<and> committed (insert_comments_batch [c] w) = committed w
         \<and> length (filter (\<lambda>r. row_id r = id_c c) (working (insert_comments_batch [c] w))) = 1
         \<and> (id_c c2 = id_c c1 \<longrightarrow>
              working (insert_comments_batch [c1, c2] w) = working (insert_comments_batch [c1] w))
         \<and> working (insert_comments_batch cs (insert_comments_batch cs w))
             = working (insert_comments_batch cs w)
         \<and> distinct (map row_id (working (insert_comments_batch cs w)))
         \<and> take (length (working w)) (working (insert_comments_batch cs w)) = working w"
proof (intro conjI impI)
  show same: "working (insert_comments_batch [c] w) = working w"
    using dup by (simp add: working_insert_comments_batch insert_or_ignore_def row_id_row_of)
  show "committed (insert_comments_batch [c] w) = committed w"
    by (rule committed_insert_comments_batch)
  have "length (filter (\<lambda>r. row_id r = id_c c) (working w)) = 1"
  proof -
    have one: "length (filter (\<lambda>r. row_id r = id_c c) t) \<le> 1"
      if "distinct (map row_id t)" for t :: "row list"
      using that
    proof (induction t)
      case Nil
      show ?case by simp
    next
      case (Cons a t)
      then have n: "row_id a \<notin> row_id ` set t" and d: "distinct (map row_id t)" by auto
      show ?case
      proof (cases "row_id a = id_c c")
        case True
        with n have "\<forall>x \<in> set t. row_id x \<noteq> id_c c" by (metis imageI)
        then have "filter (\<lambda>r. row_id r = id_c c) t = []"
          by (simp add: filter_empty_conv)
        with True show ?thesis by simp
      next
        case False
        with Cons.IH [OF d] show ?thesis by simp
      qed
    qed
    from dup obtain r where "r \<in> set (working w)" and "row_id r = id_c c" by auto
    then have "filter (\<lambda>r. row_id r = id_c c) (working w) \<noteq> []"
      by (simp add: filter_empty_conv) blast
    then have "0 < length (filter (\<lambda>r. row_id r = id_c c) (working w))" by simp
    with one [OF pk] show ?thesis by linarith
  qed
  then show "length (filter (\<lambda>r. row_id r = id_c c) (working (insert_comments_batch [c] w))) = 1"
    by (simp only: same)
  show "working (insert_comments_batch [c1, c2] w) = working (insert_comments_batch [c1] w)"
    if "id_c c2 = id_c c1"
    using that
    by (simp add: working_insert_comments_batch insert_or_ignore_def row_id_row_of)
  show "working (insert_comments_batch cs (insert_comments_batch cs w))
             = working (insert_comments_batch cs w)"
    by (simp add: working_insert_comments_batch foldl_insert_twice)
  show "distinct (map row_id (working (insert_comments_batch cs w)))"
    using pk by (simp add: working_insert_comments_batch foldl_insert_distinct)
  obtain new where "foldl insert_or_ignore (working w) (map row_of cs) = working w @ new"
    using foldl_insert_extends by blast
  then show "take (length (working w)) (working (insert_comments_batch cs w)) = working w"
    by (simp add: working_insert_comments_batch)
qed

theorem insert_if_absent_idempotent_witness:
  "distinct (map row_id (working example_store))
   \<and> id_c example_edited \<in> set (map row_id (working example_store))
   \<and> row_of example_edited \<noteq> row_of example_comment
   \<and> working (insert_comments_batch [example_edited] example_store) = [row_of example_comment]
   \<and> working (insert_comments_batch [example_comment, example_edited] world0)
       = [row_of example_comment]"
proof -
  have a: "distinct (map row_id (working example_store))" by (simp add: example_store_def)
  have b: "id_c example_edited \<in> set (map row_id (working example_store))"
    by (simp add: example_store_def example_edited_def row_id_row_of)
  have c: "row_of example_edited \<noteq> row_of example_comment"
    by (simp add: example_edited_def example_comment_def row_of_def thread_comment_def Let_def
        example_thread_def example_snippet_def)
  have d: "id_c example_edited = id_c example_comment" by (simp add: example_edited_def)
  have e: "working (insert_comments_batch [example_comment, example_edited] world0)
       = [row_of example_comment]"
    using d by (simp add: working_insert_comments_batch insert_or_ignore_def world0_def
        row_id_row_of)
  from insert_if_absent_idempotent [OF a b]
  have "working (insert_comments_batch [example_edited] example_store) = working example_store"
    by blast
  then have "working (insert_comments_batch [example_edited] example_store)
      = [row_of example_comment]"
    by (simp add: example_store_def)
  with a b c e show ?thesis by simp
qed

section \<open>Transactions\<close>

lemma fetch_comments_frame:
  "\<exists>es. snd (fetch_comments T session vid w) = w\<lparr>trace := trace w @ es\<rparr>
        \<and> filter is_db_event es = []"
  by (cases "error_reason (json (session vid))")
     (auto simp: fetch_comments_def Let_def logging_def emit_def)

lemma gather_frame:
  "\<exists>es. snd (gather T session vids w) = w\<lparr>trace := trace w @ es\<rparr>
        \<and> filter is_db_event es = []"
proof (induction vids arbitrary: w)
  case Nil
  show ?case by (intro exI [of _ "[]"]) simp
next
  case (Cons v vs)
  obtain r1 w1 where f: "fetch_comments T session v w = (r1, w1)"
    by (cases "fetch_comments T session v w")
  from fetch_comments_frame [of T session v w] f
  obtain es1 where w1: "w1 = w\<lparr>trace := trace w @ es1\<rparr>" and d1: "filter is_db_event es1 = []"
    by auto
  show ?case
  proof (cases r1)
    case (Inl e)
    with f w1 d1 show ?thesis by auto
  next
    case (Inr res)
    obtain r2 w2 where g: "gather T session vs w1 = (r2, w2)"
      by (cases "gather T session vs w1")
    from Cons.IH [of w1] g
    obtain es2 where w2: "w2 = w1\<lparr>trace := trace w1 @ es2\<rparr>" and d2: "filter is_db_event es2 = []"
      by auto
    have "snd (gather T session (v # vs) w) = w2"
      using f Inr g by (cases r2) simp_all
    also have "\<dots> = w\<lparr>trace := trace w @ (es1 @ es2)\<rparr>" using w1 w2 by simp
    finally show ?thesis using d1 d2 by (intro exI [of _ "es1 @ es2"]) simp
  qed
qed

lemma process_video_batch_frame:
  "\<exists>es. snd (process_video_batch T session vids w) = w\<lparr>trace := trace w @ es\<rparr>
        \<and> filter is_db_event es = []"
proof -
  obtain r w1 where g: "gather T session vids w = (r, w1)" by (cases "gather T session vids w")
  then have "snd (process_video_batch T session vids w) = snd (gather T session vids w)"
    by (cases r) (simp_all add: process_video_batch_def)
  with gather_frame [of T session vids w] show ?thesis by simp
qed

lemma process_video_batch_store:
  "committed (snd (process_video_batch T session vids w)) = committed w
   \<and> working (snd (process_video_batch T session vids w)) = working w
   \<and> filter is_db_event (trace (snd (process_video_batch T session vids w)))
       = filter is_db_event (trace w)"
proof -
  from process_video_batch_frame [of T session vids w]
  obtain es where "snd (process_video_batch T session vids w) = w\<lparr>trace := trace w @ es\<rparr>"
    and "filter is_db_event es = []" by blast
  then show ?thesis by simp
qed



section \<open>A batch without comments\<close>

lemma gather_all_empty:
  assumes "\<forall>v \<in> set vids. fst (fetch_comments T session v w) = Inr []"
  shows "fst (gather T session vids w) = Inr (map (\<lambda>v. []) vids)"
proof -
  have "\<not> isl (fst (gather T session vids w))"
    using assms by (intro gather_returns [where ?w0.0 = w]) simp
  then obtain results where g: "fst (gather T session vids w) = Inr results"
    by (cases "fst (gather T session vids w)") auto
  from gather_results [OF g]
  have len: "length results = length vids"
    and each: "\<And>k. k < length vids \<Longrightarrow> fst (fetch_comments T session (vids ! k) w) = Inr (results ! k)"
    by auto
  have e: "results ! k = []" if "k < length vids" for k
    using each [OF that] assms that by simp
  have "results = map (\<lambda>v. []) vids"
  proof (rule nth_equalityI)
    show "length results = length (map (\<lambda>v. []) vids)" using len by simp
    fix k assume "k < length results"
    with len e [of k] show "results ! k = map (\<lambda>v. []) vids ! k" by simp
  qed
  with g show ?thesis by simp
qed

text \<open>
  C10. When every identifier of a batch gives the empty list, the iteration of
  \<open>main\<close> for that batch ends in the world the fetches left: it adds no event, so
  no \<open>executemany\<close>, no commit and no log line of its own, and the committed table
  and the connection's table are what they were before the batch.
\<close>

theorem empty_batch_skips_store:
  assumes "\<forall>v \<in> set (batch_at cfg video_ids i). fst (fetch_comments T session v w) = Inr []"
  shows "main_step cfg T session video_ids i w
           = (None, snd (process_video_batch T session (batch_at cfg video_ids i) w))
         \<and> filter is_db_event (trace (snd (main_step cfg T session video_ids i w)))
             = filter is_db_event (trace w)
         \<and> committed (snd (main_step cfg T session video_ids i w)) = committed w
         \<and> working (snd (main_step cfg T session video_ids i w)) = working w"
proof -
  let ?b = "batch_at cfg video_ids i"
  have z: "concat (map (\<lambda>v. []) vs) = ([] :: comment list)" for vs :: "string list"
    by (induction vs) simp_all
  from gather_all_empty [OF assms]
  have "fst (process_video_batch T session ?b w) = Inr []"
    by (cases "gather T session ?b w")
       (simp add: process_video_batch_def comprehension_concat z)
  then have m: "main_step cfg T session video_ids i w = (None, snd (process_video_batch T session ?b w))"
    by (cases "process_video_batch T session ?b w") (simp add: main_step_def)
  show ?thesis
    unfolding m using process_video_batch_store [of T session ?b w] by simp
qed

theorem empty_batch_skips_store_witness:
  "fst (fetch_comments example_tables example_session ''v2'' example_store) = Inr []
   \<and> fst (fetch_comments example_tables example_session ''v3'' example_store) = Inr []
   \<and> batch_at example_config [''v1'', ''v0'', ''v2'', ''v3''] 2 = [''v2'', ''v3'']
   \<and> fst (main_step example_config example_tables example_session
            [''v1'', ''v0'', ''v2'', ''v3''] 2 example_store) = None
   \<and> filter is_db_event (trace (snd (main_step example_config example_tables example_session
            [''v1'', ''v0'', ''v2'', ''v3''] 2 example_store))) = []
   \<and> committed (snd (main_step example_config example_tables example_session
            [''v1'', ''v0'', ''v2'', ''v3''] 2 example_store)) = [row_of example_comment]"
proof -
  have b: "batch_at example_config [''v1'', ''v0'', ''v2'', ''v3''] 2 = [''v2'', ''v3'']"
    by (simp add: batch_at_def example_config_def numeral_2_eq_2)
  have f2: "fst (fetch_comments example_tables example_session ''v2'' example_store) = Inr []"
    by (simp add: fetch_comments_def example_session_def error_response_def
        error_reason_def error_message_def Let_def)
  have f3: "fst (fetch_comments example_tables example_session ''v3'' example_store) = Inr []"
    by (simp add: fetch_comments_def example_session_def error_response_def
        error_reason_def error_message_def Let_def)
  from f2 f3 b have a: "\<forall>v \<in> set (batch_at example_config [''v1'', ''v0'', ''v2'', ''v3''] 2).
      fst (fetch_comments example_tables example_session v example_store) = Inr []"
    by simp
  have tr: "trace example_store = []" and co: "committed example_store = [row_of example_comment]"
    by (simp_all add: example_store_def)
  note t = empty_batch_skips_store [OF a]
  from t have "main_step example_config example_tables example_session
            [''v1'', ''v0'', ''v2'', ''v3''] 2 example_store
      = (None, snd (process_video_batch example_tables example_session
            (batch_at example_config [''v1'', ''v0'', ''v2'', ''v3''] 2) example_store))"
    by (rule conjunct1)
  then have c1: "fst (main_step example_config example_tables example_session
            [''v1'', ''v0'', ''v2'', ''v3''] 2 example_store) = None"
    by (simp only: fst_conv)
  from t have c2: "filter is_db_event (trace (snd (main_step example_config example_tables
            example_session [''v1'', ''v0'', ''v2'', ''v3''] 2 example_store))) = []"
    unfolding tr filter.simps by (rule conjunct1 [OF conjunct2])
  from t have c3: "committed (snd (main_step example_config example_tables example_session
            [''v1'', ''v0'', ''v2'', ''v3''] 2 example_store)) = [row_of example_comment]"
    unfolding co by (rule conjunct1 [OF conjunct2 [OF conjunct2]])
  from f2 f3 b c1 c2 c3 show ?thesis by (intro conjI)
qed

end
